theory Spec2Isabelle
  imports Main "HOL-Library.Multiset"
begin

section \<open>Values, specifications and errors\<close>

text \<open>
  A record of the program is a Python value: \<open>None\<close>, a boolean, an integer, a string,
  a bytes-like value (\<open>bytes\<close> or \<open>bytearray\<close>), a list, or a dictionary with string
  keys. A dictionary is an association list in insertion order; its keys are distinct in
  every dictionary Python can build.
\<close>

datatype pyval =
    VNone
  | VBool bool
  | VInt int
  | VStr string
  | VBytes string
  | VList "pyval list"
  | VDict "(string \<times> pyval) list"

type_synonym pydict = "(string \<times> pyval) list"

text \<open>Python values that are no dict, list, str or callable, used as a transformation.\<close>

datatype atom = ANone | ABool bool | AInt int

text \<open>The exceptions of the interpreter and of its library that the program can meet.\<close>

datatype pyexc = KeyError | TypeError | AttributeError | ValueError | ReError

text \<open>
  A transformation is a dict (entries in declaration order), a list, a string, a callable
  (an extractor: \<open>Callable[[Extractable], Dict[str, ...]]\<close>, which may raise), or
  anything else. The three exception classes of the module carry their constructor
  arguments; \<open>PyExc\<close> is an exception that is no \<open>TransformationException\<close>.
\<close>

datatype spec =
    SDict "(spec \<times> spec) list"
  | SList "spec list"
  | SStr string
  | SFun "pyval \<Rightarrow> error + pydict"
  | SOther atom
and error =
    TransformationTypeMismatch spec pyval string
  | TransformationFieldMissing string pyval
  | TransformationMalformed spec
  | PyExc pyexc

type_synonym extractor = "pyval \<Rightarrow> error + pydict"

section \<open>Python primitives\<close>

definition is_dict :: "pyval \<Rightarrow> bool" where
  "is_dict d = (case d of VDict _ \<Rightarrow> True | _ \<Rightarrow> False)"



text \<open>\<open>needle in hay\<close> on two strings: the substring test.\<close>

fun str_contains :: "string \<Rightarrow> string \<Rightarrow> bool" where
  "str_contains needle [] = (needle = [])"
| "str_contains needle (c # cs) =
     (take (length needle) (c # cs) = needle \<or> str_contains needle cs)"

text \<open>
  \<open>key in data\<close> for a string \<open>key\<close>: key membership on a dict, the substring test on
  a string, element membership on a list, and \<open>TypeError\<close> on a value that is not
  iterable and on a bytes-like value (which wants a bytes-like or integer operand).
\<close>

fun py_contains :: "pyval \<Rightarrow> string \<Rightarrow> error + bool" where
  "py_contains (VDict d) key = Inr (map_of d key \<noteq> None)"
| "py_contains (VStr s) key = Inr (str_contains key s)"
| "py_contains (VList xs) key = Inr (VStr key \<in> set xs)"
| "py_contains (VBytes b) key = Inl (PyExc TypeError)"
| "py_contains VNone key = Inl (PyExc TypeError)"
| "py_contains (VBool b) key = Inl (PyExc TypeError)"
| "py_contains (VInt i) key = Inl (PyExc TypeError)"

text \<open>
  \<open>data[key]\<close> for a string \<open>key\<close>: \<open>KeyError\<close> on a dict without the key,
  \<open>TypeError\<close> on every other value (string, bytes and list indices must be integers,
  the rest is not subscriptable).
\<close>

fun py_getitem :: "pyval \<Rightarrow> string \<Rightarrow> error + pyval" where
  "py_getitem (VDict d) key =
     (case map_of d key of None \<Rightarrow> Inl (PyExc KeyError) | Some v \<Rightarrow> Inr v)"
| "py_getitem (VStr s) key = Inl (PyExc TypeError)"
| "py_getitem (VBytes b) key = Inl (PyExc TypeError)"
| "py_getitem (VList xs) key = Inl (PyExc TypeError)"
| "py_getitem VNone key = Inl (PyExc TypeError)"
| "py_getitem (VBool b) key = Inl (PyExc TypeError)"
| "py_getitem (VInt i) key = Inl (PyExc TypeError)"

text \<open>
  \<open>result[k]\<close> where \<open>result\<close> is a dict with string keys and \<open>k\<close> a transformation:
  a string is looked up, a list or a dict is unhashable, and a callable or an atom is
  hashable but equal to no string.
\<close>

fun result_getitem :: "pydict \<Rightarrow> spec \<Rightarrow> error + pyval" where
  "result_getitem r (SStr s) =
     (case map_of r s of None \<Rightarrow> Inl (PyExc KeyError) | Some v \<Rightarrow> Inr v)"
| "result_getitem r (SDict kvs) = Inl (PyExc TypeError)"
| "result_getitem r (SList xs) = Inl (PyExc TypeError)"
| "result_getitem r (SFun f) = Inl (PyExc KeyError)"
| "result_getitem r (SOther a) = Inl (PyExc KeyError)"

text \<open>\<open>d[k] = v\<close>: an existing key keeps its position, a new key goes last.\<close>

fun dict_set :: "pydict \<Rightarrow> string \<Rightarrow> pyval \<Rightarrow> pydict" where
  "dict_set [] k v = [(k, v)]"
| "dict_set ((k', v') # d) k v =
     (if k' = k then (k, v) # d else (k', v') # dict_set d k v)"

text \<open>\<open>accumulator.update(r)\<close>: the entries of \<open>r\<close> are stored in order.\<close>

fun dict_update :: "pydict \<Rightarrow> pydict \<Rightarrow> pydict" where
  "dict_update acc [] = acc"
| "dict_update acc ((k, v) # r) = dict_update (dict_set acc k v) r"

text \<open>
  \<open>s.split(sep)\<close> for a non-empty separator: the text is cut at each occurrence of
  \<open>sep\<close>, found left to right without overlap; \<open>cur\<close> is the piece being read,
  reversed.
\<close>

function split_from :: "string \<Rightarrow> string \<Rightarrow> string \<Rightarrow> string list" where
  "split_from sep cur [] = [rev cur]"
| "split_from sep cur (c # cs) =
     (if sep \<noteq> [] \<and> take (length sep) (c # cs) = sep
      then rev cur # split_from sep [] (drop (length sep) (c # cs))
      else split_from sep (c # cur) cs)"
  by pat_completeness auto
termination
  by (relation "measure (\<lambda>(sep, cur, rest). length rest)") auto

definition py_split :: "string \<Rightarrow> string \<Rightarrow> string list" where
  "py_split sep s = split_from sep [] s"

section \<open>The evaluator\<close>

text \<open>
  The loop of the dotted branch of \<open>_transform_string\<close>: \<open>data\<close> is the cursor,
  \<open>transformation\<close> the whole path, the list the steps still to take.
\<close>

fun walk_steps :: "string \<Rightarrow> string list \<Rightarrow> pyval \<Rightarrow> bool \<Rightarrow> error + pydict" where
  "walk_steps transformation [] data nullable = Inr [(transformation, data)]"
| "walk_steps transformation (step # steps) data nullable =
     (case data of
        VDict d \<Rightarrow>
          (case map_of d step of
             None \<Rightarrow>
               if nullable then Inr [(transformation, VNone)]
               else Inl (TransformationFieldMissing step data)
           | Some v \<Rightarrow> walk_steps transformation steps v nullable)
      | _ \<Rightarrow> Inl (TransformationTypeMismatch (SStr step) data ''dict''))"

definition transform_string :: "string \<Rightarrow> pyval \<Rightarrow> bool \<Rightarrow> error + pydict" where
  "transform_string transformation data nullable =
     (if str_contains ''.'' transformation
      then walk_steps transformation (py_split ''.'' transformation) data nullable
      else
        (case py_contains data transformation of
           Inl e \<Rightarrow> Inl e
         | Inr present \<Rightarrow>
             if \<not> present then
               (if nullable then Inr [(transformation, VNone)]
                else Inl (TransformationFieldMissing transformation data))
             else
               (case py_getitem data transformation of
                  Inl e \<Rightarrow> Inl e
                | Inr v \<Rightarrow> Inr [(transformation, v)])))"

text \<open>
  \<open>transform\<close> dispatches on the shape of the transformation; \<open>transform_dict_items\<close>
  and \<open>transform_list_items\<close> are the loops of \<open>_transform_dict\<close> and
  \<open>_transform_list\<close> over the entries still to process, with the accumulator.
\<close>

function (sequential) transform :: "spec \<Rightarrow> pyval \<Rightarrow> bool \<Rightarrow> error + pydict"
and transform_dict_items :: "(spec \<times> spec) list \<Rightarrow> pyval \<Rightarrow> bool \<Rightarrow> pydict \<Rightarrow> error + pydict"
and transform_list_items :: "spec list \<Rightarrow> pyval \<Rightarrow> bool \<Rightarrow> pydict \<Rightarrow> error + pydict"
where
  "transform (SDict kvs) data nullable =
     (if \<not> is_dict data
      then Inl (TransformationTypeMismatch (SDict kvs) data ''dict'')
      else transform_dict_items kvs data nullable [])"
| "transform (SList xs) data nullable =
     (if \<not> is_dict data
      then Inl (TransformationTypeMismatch (SList xs) data ''dict'')
      else transform_list_items xs data nullable [])"
| "transform (SStr s) data nullable = transform_string s data nullable"
| "transform (SFun f) data nullable = f data"
| "transform (SOther a) data nullable = Inl (TransformationMalformed (SOther a))"
| "transform_dict_items [] data nullable accumulator = Inr accumulator"
| "transform_dict_items ((k, v) # kvs) data nullable accumulator =
     (case transform k data nullable of
        Inl e \<Rightarrow> Inl e
      | Inr r \<Rightarrow>
          (case result_getitem r k of
             Inl e \<Rightarrow> Inl e
           | Inr sub \<Rightarrow>
               (case transform v sub nullable of
                  Inl e \<Rightarrow> Inl e
                | Inr r' \<Rightarrow>
                    transform_dict_items kvs data nullable (dict_update accumulator r'))))"
| "transform_list_items [] data nullable accumulator = Inr accumulator"
| "transform_list_items (extract # xs) data nullable accumulator =
     (case transform extract data nullable of
        Inl e \<Rightarrow> Inl e
      | Inr r \<Rightarrow> transform_list_items xs data nullable (dict_update accumulator r))"
  by pat_completeness auto
termination
  by (relation "measure (\<lambda>x. case x of
        Inl (s, _) \<Rightarrow> size s
      | Inr (Inl (kvs, _)) \<Rightarrow> size_list (size_prod size size) kvs
      | Inr (Inr (xs, _)) \<Rightarrow> size_list size xs)") auto


text \<open>
  The argument of \<open>accumulator.update\<close> in \<open>_transform_dict\<close>:
  \<open>transform(v, transform(k, data, nullable)[k], nullable)\<close>.
\<close>

definition entry_outcome :: "spec \<Rightarrow> spec \<Rightarrow> pyval \<Rightarrow> bool \<Rightarrow> error + pydict" where
  "entry_outcome k v data nullable =
     (case transform k data nullable of
        Inl e \<Rightarrow> Inl e
      | Inr r \<Rightarrow>
          (case result_getitem r k of
             Inl e \<Rightarrow> Inl e
           | Inr sub \<Rightarrow> transform v sub nullable))"

section \<open>The built-in extractors\<close>

text \<open>
  The extractor \<open>nullable\<close> closes this development's definitions, since from there
  on the name denotes the extractor and no longer the flag.
\<close>

text \<open>
  \<open>rename\<close>, \<open>split\<close> and \<open>mask\<close> use their field both as a transformation and as
  a dict key; it is a path-string in every use. All three call \<open>transform\<close> with the
  default \<open>nullable=False\<close>.
\<close>

definition rename :: "string \<Rightarrow> string \<Rightarrow> extractor" where
  "rename old new data =
     (case transform (SStr old) data False of
        Inl e \<Rightarrow> Inl e
      | Inr r \<Rightarrow>
          (case result_getitem r (SStr old) of
             Inl e \<Rightarrow> Inl e
           | Inr v \<Rightarrow> Inr [(new, v)]))"

text \<open>
  \<open>value.split(delimiter)\<close>, for a delimiter that is a string: on a string an empty
  separator is a \<open>ValueError\<close>; a bytes-like value has the method but rejects a string
  separator (\<open>TypeError\<close>); \<open>None\<close>, booleans, integers, lists and dicts have no such
  method (\<open>AttributeError\<close>).
\<close>

definition split :: "string \<Rightarrow> string \<Rightarrow> extractor" where
  "split field delimiter data =
     (case transform (SStr field) data False of
        Inl e \<Rightarrow> Inl e
      | Inr r \<Rightarrow>
          (case result_getitem r (SStr field) of
             Inl e \<Rightarrow> Inl e
           | Inr v \<Rightarrow>
               (case v of
                  VStr s \<Rightarrow>
                    if delimiter = [] then Inl (PyExc ValueError)
                    else Inr [(field, VList (map VStr (py_split delimiter s)))]
                | VBytes b \<Rightarrow> Inl (PyExc TypeError)
                | _ \<Rightarrow> Inl (PyExc AttributeError))))"




section \<open>Notions of the specification\<close>

text \<open>
  The value reached by following the segments, left to right, into nested mappings;
  \<open>None\<close> when a segment is absent or the cursor is no mapping.
\<close>

fun follow :: "string list \<Rightarrow> pyval \<Rightarrow> pyval option" where
  "follow [] v = Some v"
| "follow (seg # segs) v =
     (case v of
        VDict d \<Rightarrow> (case map_of d seg of None \<Rightarrow> None | Some v' \<Rightarrow> follow segs v')
      | _ \<Rightarrow> None)"


definition is_composite :: "spec \<Rightarrow> bool" where
  "is_composite c = (case c of SDict _ \<Rightarrow> True | SList _ \<Rightarrow> True | _ \<Rightarrow> False)"

text \<open>The outcomes of the children of a composite shape, in declaration order.\<close>

fun child_outcomes :: "spec \<Rightarrow> pyval \<Rightarrow> bool \<Rightarrow> (error + pydict) list" where
  "child_outcomes (SList xs) data nullable = map (\<lambda>x. transform x data nullable) xs"
| "child_outcomes (SDict kvs) data nullable =
     map (\<lambda>(k, v). entry_outcome k v data nullable) kvs"
| "child_outcomes _ data nullable = []"

text \<open>
  Merging outcomes in order into an accumulator: the first error is the outcome;
  otherwise every result map is stored into the accumulator, later ones over earlier.
\<close>

fun merge_outcomes :: "(error + pydict) list \<Rightarrow> pydict \<Rightarrow> error + pydict" where
  "merge_outcomes [] acc = Inr acc"
| "merge_outcomes (Inl e # os) acc = Inl e"
| "merge_outcomes (Inr r # os) acc = merge_outcomes os (dict_update acc r)"

text \<open>The destination keys an item-spec produces on an input (none when it fails).\<close>

definition item_keys :: "spec \<Rightarrow> pyval \<Rightarrow> bool \<Rightarrow> string set" where
  "item_keys x data nullable =
     (case transform x data nullable of Inl e \<Rightarrow> {} | Inr r \<Rightarrow> fst ` set r)"

text \<open>\<open>nullable(field, nullable=True)\<close>: the flag of the closure replaces the caller's.\<close>

definition nullable :: "spec \<Rightarrow> bool \<Rightarrow> extractor" where
  "nullable field flag data = transform field data flag"

section \<open>The path resolver\<close>

lemma str_contains_char: "str_contains [c] s = (c \<in> set s)"
  by (induction s) auto

lemma split_from_absent: "c \<notin> set s \<Longrightarrow> split_from [c] cur s = [rev cur @ s]"
  by (induction s arbitrary: cur) auto

lemma split_from_nonempty: "split_from sep cur s \<noteq> []"
  by (induction sep cur s rule: split_from.induct) auto

lemma py_split_undotted: "\<not> str_contains ''.'' p \<Longrightarrow> py_split ''.'' p = [p]"
  by (simp add: py_split_def str_contains_char split_from_absent)

lemma walk_steps_follow:
  "follow segs m = Some v \<Longrightarrow> walk_steps t segs m n = Inr [(t, v)]"
  by (induction segs arbitrary: m) (auto split: pyval.splits option.splits)

lemma walk_steps_missing:
  "follow pre m = Some (VDict d) \<Longrightarrow> map_of d s = None \<Longrightarrow>
   walk_steps t (pre @ s # post) m n =
     (if n then Inr [(t, VNone)] else Inl (TransformationFieldMissing s (VDict d)))"
  by (induction pre arbitrary: m) (auto split: pyval.splits option.splits)

text \<open>On a mapping the branch without a dot computes what the walk computes.\<close>

lemma transform_string_dict_walk:
  "transform_string p (VDict d) n = walk_steps p (py_split ''.'' p) (VDict d) n"
  by (auto simp: transform_string_def py_split_undotted split: option.splits)

lemma follow_Cons_dict: "follow (s # segs) m = Some v \<Longrightarrow> \<exists>d. m = VDict d"
  by (cases m) auto

lemma transform_string_missing:
  assumes "py_split ''.'' p = pre @ s # post" and "follow pre m = Some (VDict d)"
    and "map_of d s = None"
  shows "transform (SStr p) m n =
     (if n then Inr [(p, VNone)] else Inl (TransformationFieldMissing s (VDict d)))"
proof -
  have "\<exists>d'. m = VDict d'"
  proof (cases pre)
    case Nil
    with assms(2) show ?thesis by simp
  next
    case (Cons a list)
    with assms(2) show ?thesis using follow_Cons_dict by blast
  qed
  then obtain d' where m: "m = VDict d'" ..
  show ?thesis
    using walk_steps_missing[OF assms(2,3), of p post n] assms(1)
    by (simp add: m transform_string_dict_walk)
qed

text \<open>
  C1. When every dot-segment of the path-string \<open>p\<close> resolves in the nested mapping
  \<open>m\<close>, reaching \<open>v\<close> by following the segments left to right,
  \<open>transform(p, m, False)\<close> returns the one-entry map \<open>{p: v}\<close>: the destination key
  is the whole path-string, not its last segment.
\<close>

theorem transform_path_resolves:
  assumes "follow (py_split ''.'' p) m = Some v"
  shows "transform (SStr p) m False = Inr [(p, v)]"
proof -
  obtain s segs where "py_split ''.'' p = s # segs"
    using split_from_nonempty[of "''.''" "[]" p]
    by (cases "py_split ''.'' p") (auto simp: py_split_def)
  with assms obtain d where m: "m = VDict d"
    using follow_Cons_dict by metis
  show ?thesis
    using assms by (simp add: m transform_string_dict_walk walk_steps_follow)
qed

theorem transform_path_resolves_witness:
  "follow (py_split ''.'' ''a.b.c'')
     (VDict [(''a'', VDict [(''b'', VDict [(''c'', VInt 1)])])]) = Some (VInt 1)
   \<and> transform (SStr ''a.b.c'')
       (VDict [(''a'', VDict [(''b'', VDict [(''c'', VInt 1)])])]) False
     = Inr [(''a.b.c'', VInt 1)]"
proof -
  have h: "follow (py_split ''.'' ''a.b.c'')
     (VDict [(''a'', VDict [(''b'', VDict [(''c'', VInt 1)])])]) = Some (VInt 1)"
    by (simp add: py_split_def)
  from h transform_path_resolves[OF h] show ?thesis by (rule conjI)
qed

text \<open>
  C2. When the segments before \<open>s\<close> resolve, each to a mapping, down to the mapping
  \<open>d\<close>, and \<open>s\<close> is not a key of \<open>d\<close>, then \<open>transform(p, m, False)\<close> raises
  \<open>TransformationFieldMissing\<close> naming \<open>s\<close>, the first unresolved segment, and
  \<open>transform(p, m, True)\<close> returns \<open>{p: None}\<close>.
\<close>

theorem transform_path_missing:
  assumes "py_split ''.'' p = pre @ s # post" and "follow pre m = Some (VDict d)"
    and "map_of d s = None"
  shows "transform (SStr p) m False = Inl (TransformationFieldMissing s (VDict d))
       \<and> transform (SStr p) m True = Inr [(p, VNone)]"
  using transform_string_missing[OF assms, of False] transform_string_missing[OF assms, of True]
  by simp

theorem transform_path_missing_witness:
  "py_split ''.'' ''a.b.c'' = [''a''] @ ''b'' # [''c'']
   \<and> follow [''a''] (VDict [(''a'', VDict [(''x'', VInt 1)])]) = Some (VDict [(''x'', VInt 1)])
   \<and> map_of [(''x'', VInt 1)] ''b'' = None
   \<and> transform (SStr ''a.b.c'') (VDict [(''a'', VDict [(''x'', VInt 1)])]) False
       = Inl (TransformationFieldMissing ''b'' (VDict [(''x'', VInt 1)]))
   \<and> transform (SStr ''a.b.c'') (VDict [(''a'', VDict [(''x'', VInt 1)])]) True
       = Inr [(''a.b.c'', VNone)]"
proof -
  have h1: "py_split ''.'' ''a.b.c'' = [''a''] @ ''b'' # [''c'']"
    by (simp add: py_split_def)
  have h2: "follow [''a''] (VDict [(''a'', VDict [(''x'', VInt 1)])])
              = Some (VDict [(''x'', VInt 1)])"
    by simp
  have h3: "map_of [(''x'', VInt 1)] ''b'' = None"
    by simp
  from h1 h2 h3 transform_path_missing[OF h1 h2 h3] show ?thesis by blast
qed

section \<open>Dictionaries and the merge of outcomes\<close>

lemma map_of_dict_set: "map_of (dict_set d k v) = (map_of d)(k \<mapsto> v)"
  by (induction d) auto

lemma map_of_dict_update: "map_of (dict_update acc r) = map_of acc ++ map_of (rev r)"
proof (induction r arbitrary: acc)
  case Nil
  then show ?case by simp
next
  case (Cons kv r)
  obtain k v where kv: "kv = (k, v)" by (cases kv)
  have "map_of (dict_update acc (kv # r)) x = (map_of acc ++ map_of (rev (kv # r))) x" for x
    by (simp add: kv Cons.IH map_of_dict_set map_add_def split: option.splits)
  then show ?case by (rule ext)
qed

lemma map_of_rev_distinct: "distinct (map fst r) \<Longrightarrow> map_of (rev r) = map_of r"
proof (induction r)
  case Nil
  then show ?case by simp
next
  case (Cons kv r)
  obtain k v where kv: "kv = (k, v)" by (cases kv)
  from Cons.prems have notin: "map_of r k = None"
    by (simp add: kv map_of_eq_None_iff)
  from Cons show ?case
    using notin by (auto simp: kv fun_eq_iff map_add_def split: option.splits)
qed

lemma set_dict_set: "set (dict_set d k v) \<subseteq> insert (k, v) (set d)"
  by (induction d) (auto split: if_splits)

lemma set_dict_update: "set (dict_update acc r) \<subseteq> set acc \<union> set r"
proof (induction r arbitrary: acc)
  case Nil
  then show ?case by simp
next
  case (Cons kv r)
  obtain k v where kv: "kv = (k, v)" by (cases kv)
  show ?case using Cons.IH[of "dict_set acc k v"] set_dict_set[of acc k v]
    by (auto simp: kv)
qed


lemma keys_rev: "(map_of (rev r) key = None) = (key \<notin> fst ` set r)"
  by (simp add: map_of_eq_None_iff)

lemma list_items_merge:
  "transform_list_items xs data n acc =
     merge_outcomes (map (\<lambda>x. transform x data n) xs) acc"
  by (induction xs arbitrary: acc) (auto split: sum.splits)

lemma dict_items_merge:
  "transform_dict_items kvs data n acc =
     merge_outcomes (map (\<lambda>(k, v). entry_outcome k v data n) kvs) acc"
  by (induction kvs arbitrary: acc) (auto simp: entry_outcome_def split: sum.splits)

lemma transform_composite_merge:
  "is_dict data \<Longrightarrow> is_composite c \<Longrightarrow>
   transform c data n = merge_outcomes (child_outcomes c data n) []"
  by (cases c) (simp_all add: is_composite_def list_items_merge dict_items_merge)

lemma merge_append:
  "merge_outcomes (os1 @ os2) acc =
     (case merge_outcomes os1 acc of Inl e \<Rightarrow> Inl e | Inr a \<Rightarrow> merge_outcomes os2 a)"
  by (induction os1 acc rule: merge_outcomes.induct) auto

lemma merge_succeeds_iff:
  "(\<exists>out. merge_outcomes os acc = Inr out) = (\<forall>c\<in>set os. \<not> isl c)"
  by (induction os acc rule: merge_outcomes.induct) auto

lemma merge_first_error:
  "\<forall>c\<in>set pre. \<not> isl c \<Longrightarrow> merge_outcomes (pre @ Inl e # post) acc = Inl e"
  using merge_succeeds_iff[of pre acc] by (auto simp: merge_append)

lemma merge_entries:
  "merge_outcomes os acc = Inr out \<Longrightarrow> (key, val) \<in> set out \<Longrightarrow>
   (key, val) \<in> set acc \<or> (\<exists>r. Inr r \<in> set os \<and> (key, val) \<in> set r)"
proof (induction os acc rule: merge_outcomes.induct)
  case (3 r os acc)
  then show ?case using set_dict_update[of acc r] by auto
qed auto

lemma merge_keeps:
  "merge_outcomes os acc = Inr out \<Longrightarrow> \<forall>r. Inr r \<in> set os \<longrightarrow> key \<notin> fst ` set r \<Longrightarrow>
   map_of out key = map_of acc key"
proof (induction os acc rule: merge_outcomes.induct)
  case (3 r os acc)
  then have "map_of out key = map_of (dict_update acc r) key" by auto
  moreover have "map_of (rev r) key = None" using 3(3) by (simp add: keys_rev)
  ultimately show ?case by (simp add: map_of_dict_update map_add_def)
qed auto

lemma merge_last_write:
  assumes "\<forall>c\<in>set (pre @ post). \<not> isl c" and "map_of (rev r) key = Some val"
    and "\<forall>r'. Inr r' \<in> set post \<longrightarrow> key \<notin> fst ` set r'"
  shows "\<exists>out. merge_outcomes (pre @ Inr r # post) acc = Inr out \<and> map_of out key = Some val"
proof -
  from assms(1) obtain a where a: "merge_outcomes pre acc = Inr a"
    using merge_succeeds_iff[of pre acc] by auto
  from assms(1) obtain out where out: "merge_outcomes post (dict_update a r) = Inr out"
    using merge_succeeds_iff[of post "dict_update a r"] by auto
  have "map_of out key = map_of (dict_update a r) key"
    using merge_keeps[OF out assms(3)] .
  with assms(2) have "map_of out key = Some val"
    by (simp add: map_of_dict_update)
  with a out show ?thesis by (simp add: merge_append)
qed


lemma transform_list_snoc:
  "transform (SList (xs @ [x])) (VDict d) n =
     (case transform (SList xs) (VDict d) n of
        Inl e \<Rightarrow> Inl e
      | Inr acc \<Rightarrow>
          (case transform x (VDict d) n of
             Inl e \<Rightarrow> Inl e
           | Inr r \<Rightarrow> Inr (dict_update acc r)))"
  by (simp add: is_dict_def list_items_merge merge_append split: sum.splits)

section \<open>Composite shapes\<close>



text \<open>
  C5. On an input that is no mapping, an ObjectSpec and a ListSpec fail with
  \<open>TransformationTypeMismatch\<close>, whatever the nullable flag and whatever the item-specs
  are (extractors and scalar lookups included).
\<close>

theorem composite_rejects_non_mapping:
  assumes "\<not> is_dict data"
  shows "transform (SDict kvs) data n = Inl (TransformationTypeMismatch (SDict kvs) data ''dict'')
       \<and> transform (SList xs) data n = Inl (TransformationTypeMismatch (SList xs) data ''dict'')"
  using assms by simp

theorem composite_rejects_non_mapping_witness:
  "\<not> is_dict (VInt 7)
   \<and> transform (SDict [(SStr ''a'', SStr ''b'')]) (VInt 7) True
       = Inl (TransformationTypeMismatch (SDict [(SStr ''a'', SStr ''b'')]) (VInt 7) ''dict'')
   \<and> transform (SList [SFun (rename ''a'' ''b''), SStr ''a'']) (VInt 7) True
       = Inl (TransformationTypeMismatch (SList [SFun (rename ''a'' ''b''), SStr ''a''])
               (VInt 7) ''dict'')"
proof -
  have h: "\<not> is_dict (VInt 7)" by (simp add: is_dict_def)
  from h composite_rejects_non_mapping[OF h] show ?thesis by blast
qed

section \<open>Order of the items of a ListSpec\<close>

lemma count_from_pairwise:
  "\<forall>i<length xs. \<forall>j<length xs. i \<noteq> j \<longrightarrow> K (xs ! i) \<inter> K (xs ! j) = {} \<Longrightarrow>
   length (filter (\<lambda>x. key \<in> K x) xs) \<le> 1"
proof (induction xs)
  case Nil
  then show ?case by simp
next
  case (Cons x xs)
  have tail: "\<forall>i<length xs. \<forall>j<length xs. i \<noteq> j \<longrightarrow> K (xs ! i) \<inter> K (xs ! j) = {}"
  proof (intro allI impI)
    fix i j assume "i < length xs" "j < length xs" "i \<noteq> j"
    then show "K (xs ! i) \<inter> K (xs ! j) = {}"
      using Cons.prems[rule_format, of "Suc i" "Suc j"] by simp
  qed
  show ?case
  proof (cases "key \<in> K x")
    case True
    have "key \<notin> K y" if "y \<in> set xs" for y
    proof -
      from that obtain j where "j < length xs" "xs ! j = y"
        by (auto simp: in_set_conv_nth)
      then show ?thesis
        using Cons.prems[rule_format, of 0 "Suc j"] True by auto
    qed
    then have "filter (\<lambda>x. key \<in> K x) xs = []" by (simp add: filter_empty_conv)
    with True show ?thesis by simp
  next
    case False
    with Cons.IH[OF tail] show ?thesis by simp
  qed
qed

lemma merge_lookup_unique:
  assumes "merge_outcomes (map Inr rs) [] = Inr out"
    and "\<forall>key. length (filter (\<lambda>r. key \<in> fst ` set r) rs) \<le> 1"
  shows "(map_of out key = Some val) = (\<exists>r\<in>set rs. map_of (rev r) key = Some val)"
  using assms
proof (induction rs arbitrary: out rule: rev_induct)
  case Nil
  then show ?case by simp
next
  case (snoc r rs)
  from snoc.prems(1) obtain a where a: "merge_outcomes (map Inr rs) [] = Inr a"
    and out: "out = dict_update a r"
    by (auto simp: merge_append split: sum.splits)
  have cnt: "\<forall>key. length (filter (\<lambda>r. key \<in> fst ` set r) rs) \<le> 1"
  proof
    fix key'
    have "length (filter (\<lambda>r. key' \<in> fst ` set r) rs)
            \<le> length (filter (\<lambda>r. key' \<in> fst ` set r) (rs @ [r]))"
      by simp
    with snoc.prems(2)[rule_format, of key']
    show "length (filter (\<lambda>r. key' \<in> fst ` set r) rs) \<le> 1"
      by (rule le_trans[rotated])
  qed
  note IH = snoc.IH[OF a cnt]
  show ?case
  proof (cases "key \<in> fst ` set r")
    case True
    then have none: "\<forall>r'\<in>set rs. key \<notin> fst ` set r'"
      using snoc.prems(2)[rule_format, of key] by (auto simp: filter_empty_conv)
    then have "\<forall>r'\<in>set rs. map_of (rev r') key = None"
      by (simp add: keys_rev)
    moreover from True obtain w where "map_of (rev r) key = Some w"
      using keys_rev[of r key] by (cases "map_of (rev r) key") auto
    ultimately show ?thesis
      by (auto simp: out map_of_dict_update map_add_def)
  next
    case False
    then have "map_of (rev r) key = None" by (simp add: keys_rev)
    then show ?thesis using IH
      by (auto simp: out map_of_dict_update map_add_def)
  qed
qed

lemma list_succeeds_results:
  assumes "transform (SList xs) (VDict d) n = Inr out"
  shows "map (\<lambda>x. transform x (VDict d) n) xs
           = map Inr (map (\<lambda>x. projr (transform x (VDict d) n)) xs)"
proof -
  from assms have "\<forall>c\<in>set (map (\<lambda>x. transform x (VDict d) n) xs). \<not> isl c"
    using merge_succeeds_iff[of "map (\<lambda>x. transform x (VDict d) n) xs" "[]"]
    by (simp add: is_dict_def list_items_merge)
  then show ?thesis by (auto simp: sum.collapse)
qed

lemma list_lookup_unique:
  assumes ok: "transform (SList xs) (VDict d) n = Inr out"
    and cnt: "\<forall>key. length (filter (\<lambda>x. key \<in> item_keys x (VDict d) n) xs) \<le> 1"
  shows "(map_of out key = Some val)
       = (\<exists>x\<in>set xs. \<exists>r. transform x (VDict d) n = Inr r \<and> map_of (rev r) key = Some val)"
proof -
  let ?rs = "map (\<lambda>x. projr (transform x (VDict d) n)) xs"
  have all: "\<forall>x\<in>set xs. \<exists>r. transform x (VDict d) n = Inr r"
    using ok merge_succeeds_iff[of "map (\<lambda>x. transform x (VDict d) n) xs" "[]"]
    by (auto simp: is_dict_def list_items_merge isl_def) (metis sum.exhaust_sel isl_def)
  have m: "merge_outcomes (map Inr ?rs) [] = Inr out"
    using ok list_succeeds_results[OF ok] by (simp add: is_dict_def list_items_merge)
  have keys: "fst ` set (projr (transform x (VDict d) n)) = item_keys x (VDict d) n"
    if "x \<in> set xs" for x
  proof -
    from all that obtain r where "transform x (VDict d) n = Inr r" by blast
    then show ?thesis by (simp add: item_keys_def)
  qed
  have "filter (\<lambda>r. key' \<in> fst ` set r) ?rs
          = map (\<lambda>x. projr (transform x (VDict d) n))
              (filter (\<lambda>x. key' \<in> item_keys x (VDict d) n) xs)" for key'
    unfolding filter_map o_def
    by (rule arg_cong[where f="map _"], rule filter_cong) (auto simp: keys)
  then have cnt': "\<forall>key. length (filter (\<lambda>r. key \<in> fst ` set r) ?rs) \<le> 1"
    using cnt by simp
  have "(map_of out key = Some val) = (\<exists>r\<in>set ?rs. map_of (rev r) key = Some val)"
    by (rule merge_lookup_unique[OF m cnt'])
  also have "\<dots> = (\<exists>x\<in>set xs. \<exists>r. transform x (VDict d) n = Inr r \<and> map_of (rev r) key = Some val)"
    using all by force
  finally show ?thesis .
qed

lemma list_permuted:
  assumes perm: "mset ys = mset xs"
    and disj: "\<forall>i<length xs. \<forall>j<length xs. i \<noteq> j \<longrightarrow>
                 item_keys (xs ! i) (VDict d) n \<inter> item_keys (xs ! j) (VDict d) n = {}"
    and ok: "transform (SList xs) (VDict d) n = Inr out"
  shows "\<exists>out'. transform (SList ys) (VDict d) n = Inr out' \<and> map_of out' = map_of out"
proof -
  have sets: "set ys = set xs" using perm by (rule mset_eq_setD)
  have "\<forall>c\<in>set (map (\<lambda>x. transform x (VDict d) n) xs). \<not> isl c"
    using ok merge_succeeds_iff[of "map (\<lambda>x. transform x (VDict d) n) xs" "[]"]
    by (simp add: is_dict_def list_items_merge)
  then have "\<forall>c\<in>set (map (\<lambda>x. transform x (VDict d) n) ys). \<not> isl c"
    using sets by simp
  then obtain out' where ok': "transform (SList ys) (VDict d) n = Inr out'"
    using merge_succeeds_iff[of "map (\<lambda>x. transform x (VDict d) n) ys" "[]"]
    by (auto simp: is_dict_def list_items_merge)
  have cnt: "\<forall>key. length (filter (\<lambda>x. key \<in> item_keys x (VDict d) n) xs) \<le> 1"
    using count_from_pairwise[where K="\<lambda>x. item_keys x (VDict d) n", OF disj] by simp
  have "length (filter P ys) = length (filter P xs)" for P :: "spec \<Rightarrow> bool"
  proof -
    have "mset (filter P ys) = mset (filter P xs)" using perm by simp
    then show ?thesis by (rule mset_eq_length)
  qed
  with cnt have cnt': "\<forall>key. length (filter (\<lambda>x. key \<in> item_keys x (VDict d) n) ys) \<le> 1"
    by simp
  have "map_of out' key = map_of out key" for key
  proof -
    have "(map_of out' key = Some val) = (map_of out key = Some val)" for val
      unfolding list_lookup_unique[OF ok cnt] list_lookup_unique[OF ok' cnt'] sets ..
    then show ?thesis by (cases "map_of out key"; cases "map_of out' key") auto
  qed
  then have "map_of out' = map_of out" by (rule ext)
  with ok' show ?thesis by blast
qed

text \<open>
  C6. The items of a ListSpec are evaluated in declaration order, each against the same
  input, and their result maps are stored into one accumulator, a later value replacing
  an earlier one under the same key. When the items produce pairwise disjoint sets of keys
  and the call succeeds, every reordering of the items succeeds with the same mapping
  from keys to values. \<open>transform(["a", "a"], {"a": 1}, nullable)\<close> is \<open>{"a": 1}\<close>
  for both values of the flag.
\<close>

theorem transform_list_merge:
  "transform (SList []) (VDict d) n = Inr []
   \<and> transform (SList (xs @ [x])) (VDict d) n =
       (case transform (SList xs) (VDict d) n of
          Inl e \<Rightarrow> Inl e
        | Inr acc \<Rightarrow>
            (case transform x (VDict d) n of
               Inl e \<Rightarrow> Inl e
             | Inr r \<Rightarrow> Inr (dict_update acc r)))
   \<and> (distinct (map fst r) \<longrightarrow> map_of (dict_update acc r) = map_of acc ++ map_of r)
   \<and> (mset ys = mset xs
        \<and> (\<forall>i<length xs. \<forall>j<length xs. i \<noteq> j \<longrightarrow>
              item_keys (xs ! i) (VDict d) n \<inter> item_keys (xs ! j) (VDict d) n = {})
        \<and> transform (SList xs) (VDict d) n = Inr out
        \<longrightarrow> (\<exists>out'. transform (SList ys) (VDict d) n = Inr out' \<and> map_of out' = map_of out))
   \<and> transform (SList [SStr ''a'', SStr ''a'']) (VDict [(''a'', VInt 1)]) n
       = Inr [(''a'', VInt 1)]"
proof (intro conjI impI)
  show "transform (SList []) (VDict d) n = Inr []"
    by (simp add: is_dict_def)
  show "transform (SList (xs @ [x])) (VDict d) n =
       (case transform (SList xs) (VDict d) n of
          Inl e \<Rightarrow> Inl e
        | Inr acc \<Rightarrow>
            (case transform x (VDict d) n of
               Inl e \<Rightarrow> Inl e
             | Inr r \<Rightarrow> Inr (dict_update acc r)))"
    by (rule transform_list_snoc)
  show "map_of (dict_update acc r) = map_of acc ++ map_of r" if "distinct (map fst r)"
    using that by (simp add: map_of_dict_update map_of_rev_distinct)
  show "\<exists>out'. transform (SList ys) (VDict d) n = Inr out' \<and> map_of out' = map_of out"
    if "mset ys = mset xs
        \<and> (\<forall>i<length xs. \<forall>j<length xs. i \<noteq> j \<longrightarrow>
              item_keys (xs ! i) (VDict d) n \<inter> item_keys (xs ! j) (VDict d) n = {})
        \<and> transform (SList xs) (VDict d) n = Inr out"
    using that list_permuted[of ys xs d n out] by blast
  show "transform (SList [SStr ''a'', SStr ''a'']) (VDict [(''a'', VInt 1)]) n
       = Inr [(''a'', VInt 1)]"
    by (simp add: transform_string_def is_dict_def)
qed

theorem transform_list_merge_witness:
  "distinct (map fst [(''a'', VInt 3)])
   \<and> map_of (dict_update [(''a'', VInt 1), (''b'', VInt 2)] [(''a'', VInt 3)])
       = map_of [(''a'', VInt 1), (''b'', VInt 2)] ++ map_of [(''a'', VInt 3)]
   \<and> mset [SStr ''b'', SStr ''a''] = mset [SStr ''a'', SStr ''b'']
   \<and> item_keys (SStr ''a'') (VDict [(''a'', VInt 1), (''b'', VInt 2)]) False
         \<inter> item_keys (SStr ''b'') (VDict [(''a'', VInt 1), (''b'', VInt 2)]) False = {}
   \<and> transform (SList [SStr ''a'', SStr ''b'']) (VDict [(''a'', VInt 1), (''b'', VInt 2)]) False
       = Inr [(''a'', VInt 1), (''b'', VInt 2)]
   \<and> (\<exists>out'. transform (SList [SStr ''b'', SStr ''a''])
                 (VDict [(''a'', VInt 1), (''b'', VInt 2)]) False = Inr out'
              \<and> map_of out' = map_of [(''a'', VInt 1), (''b'', VInt 2)])"
proof -
  let ?D = "VDict [(''a'', VInt 1), (''b'', VInt 2)]"
  let ?xs = "[SStr ''a'', SStr ''b'']"
  have h0: "distinct (map fst [(''a'', VInt 3)])" by simp
  have h1: "mset [SStr ''b'', SStr ''a''] = mset ?xs" by simp
  have h2: "\<forall>i<length ?xs. \<forall>j<length ?xs. i \<noteq> j \<longrightarrow>
         item_keys (?xs ! i) ?D False \<inter> item_keys (?xs ! j) ?D False = {}"
    by (auto simp: less_Suc_eq item_keys_def transform_string_def)
  have h3: "transform (SList ?xs) ?D False = Inr [(''a'', VInt 1), (''b'', VInt 2)]"
    by (simp add: transform_string_def is_dict_def)
  note inst = transform_list_merge[of "[(''a'', VInt 1), (''b'', VInt 2)]" False ?xs "SStr ''a''"
      "[(''a'', VInt 3)]" "[(''a'', VInt 1), (''b'', VInt 2)]" "[SStr ''b'', SStr ''a'']"
      "[(''a'', VInt 1), (''b'', VInt 2)]"]
  from inst h0 have c1: "map_of (dict_update [(''a'', VInt 1), (''b'', VInt 2)] [(''a'', VInt 3)])
       = map_of [(''a'', VInt 1), (''b'', VInt 2)] ++ map_of [(''a'', VInt 3)]"
    by blast
  from inst h1 h2 h3 have c2: "\<exists>out'. transform (SList [SStr ''b'', SStr ''a'']) ?D False = Inr out'
              \<and> map_of out' = map_of [(''a'', VInt 1), (''b'', VInt 2)]"
    by blast
  have h4: "item_keys (SStr ''a'') ?D False \<inter> item_keys (SStr ''b'') ?D False = {}"
    by (simp add: item_keys_def transform_string_def)
  from h0 c1 h1 h4 h3 c2 show ?thesis by (intro conjI)
qed

section \<open>Path-strings on inputs that are no mapping\<close>

text \<open>
  C4. A path-string without a dot is claimed to behave as the walk over its single
  segment, failing with a type mismatch on an input that is no mapping. The branch without
  a dot has no \<open>isinstance\<close> test: on the list \<open>[1, 2]\<close> under nullable mode it returns
  \<open>{"a": None}\<close> where the walk raises \<open>TransformationTypeMismatch\<close>; on the string
  \<open>"xyz"\<close> it raises \<open>TransformationFieldMissing\<close>; on the integer \<open>5\<close> the \<open>in\<close> test
  raises the interpreter's \<open>TypeError\<close>. The dotted branch does raise the type mismatch.
\<close>

theorem undotted_path_skips_type_check:
  "transform (SStr ''a'') (VList [VInt 1, VInt 2]) True = Inr [(''a'', VNone)]
   \<and> walk_steps ''a'' (py_split ''.'' ''a'') (VList [VInt 1, VInt 2]) True
       = Inl (TransformationTypeMismatch (SStr ''a'') (VList [VInt 1, VInt 2]) ''dict'')
   \<and> transform (SStr ''a'') (VStr ''xyz'') False
       = Inl (TransformationFieldMissing ''a'' (VStr ''xyz''))
   \<and> transform (SStr ''a'') (VInt 5) False = Inl (PyExc TypeError)
   \<and> transform (SStr ''a.b'') (VList [VInt 1, VInt 2]) True
       = Inl (TransformationTypeMismatch (SStr ''a'') (VList [VInt 1, VInt 2]) ''dict'')"
  by (simp add: transform_string_def py_split_def)

section \<open>The built-in extractors on their inputs\<close>




text \<open>
  C8. The extractor \<open>nullable(f, flag)\<close> evaluates \<open>f\<close> under its own flag, whatever flag
  the enclosing call carries: when the path \<open>p\<close> is missing from the input,
  \<open>nullable(p, False)\<close> raises \<open>TransformationFieldMissing\<close> under an ambient \<open>True\<close>,
  and \<open>nullable(p, True)\<close> returns \<open>{p: None}\<close> under an ambient \<open>False\<close>.
\<close>

theorem nullable_overrides_ambient:
  assumes "py_split ''.'' p = pre @ s # post" and "follow pre m = Some (VDict d)"
    and "map_of d s = None"
  shows "transform (SFun (nullable (SStr p) False)) m True
           = Inl (TransformationFieldMissing s (VDict d))
       \<and> transform (SFun (nullable (SStr p) True)) m False = Inr [(p, VNone)]
       \<and> transform (SFun (nullable f flag)) m ambient = transform f m flag"
  using transform_string_missing[OF assms, of False] transform_string_missing[OF assms, of True]
  by (simp add: nullable_def)

theorem nullable_overrides_ambient_witness:
  "py_split ''.'' ''a'' = [] @ ''a'' # []
   \<and> follow [] (VDict []) = Some (VDict [])
   \<and> map_of ([] :: pydict) ''a'' = None
   \<and> transform (SFun (nullable (SStr ''a'') False)) (VDict []) True
       = Inl (TransformationFieldMissing ''a'' (VDict []))
   \<and> transform (SFun (nullable (SStr ''a'') True)) (VDict []) False = Inr [(''a'', VNone)]"
proof -
  have h1: "py_split ''.'' ''a'' = [] @ ''a'' # []" by (simp add: py_split_def)
  have h2: "follow [] (VDict []) = Some (VDict [])" by simp
  have h3: "map_of ([] :: pydict) ''a'' = None" by simp
  from h1 h2 h3
    nullable_overrides_ambient[OF h1 h2 h3, where f="SStr ''a''" and flag=True and ambient=False]
  show ?thesis by blast
qed

section \<open>Outcomes of the children of a composite shape\<close>

lemma transform_dotted_on_none:
  assumes "str_contains ''.'' q"
  shows "transform (SStr q) VNone n
           = Inl (TransformationTypeMismatch (SStr (hd (py_split ''.'' q))) VNone ''dict'')"
proof -
  obtain s segs where "py_split ''.'' q = s # segs"
    using split_from_nonempty[of "''.''" "[]" q]
    by (cases "py_split ''.'' q") (auto simp: py_split_def)
  with assms show ?thesis by (simp add: transform_string_def)
qed

lemma transform_composite_on_none:
  "is_composite v \<Longrightarrow> transform v VNone n = Inl (TransformationTypeMismatch v VNone ''dict'')"
  by (cases v) (simp_all add: is_composite_def is_dict_def)

text \<open>
  C9, as stated, fails in its last part: under nullable mode the keySpec \<open>"a"\<close> resolves
  to null on the input \<open>{}\<close>, and the ObjectSpec \<open>{"a": "b.c"}\<close> then fails with
  \<open>TransformationTypeMismatch\<close>, since the null is the input of the valueSpec.
\<close>

theorem composite_null_key_counterexample:
  "transform (SStr ''a'') (VDict []) True = Inr [(''a'', VNone)]
   \<and> transform (SDict [(SStr ''a'', SStr ''b.c'')]) (VDict []) True
       = Inl (TransformationTypeMismatch (SStr ''b'') VNone ''dict'')"
  by (simp add: transform_string_def py_split_def is_dict_def)

text \<open>
  C9, amended. On a mapping input a composite shape neither swallows nor alters the
  outcomes of its children (the items of a ListSpec; for an ObjectSpec entry the keySpec,
  then the valueSpec on the value found under the key): the first error among them is
  the error of the call, unchanged; when all succeed, an entry of a child's result that no
  later child overwrites is in the output with its value (a \<open>{path: None}\<close> included),
  and every entry of the output is an entry of some child's result. An error of the
  keySpec is the error of the entry; a keySpec that resolves to null hands the null to the
  valueSpec, whose outcome is the outcome of the entry: a type mismatch when the valueSpec
  is an ObjectSpec, a ListSpec or a dotted path-string.
\<close>

theorem composite_propagates_children:
  assumes "is_dict data" and "is_composite c"
  shows "(child_outcomes c data n = pre @ Inl e # post \<and> (\<forall>r\<in>set pre. \<not> isl r)
            \<longrightarrow> transform c data n = Inl e)
       \<and> (child_outcomes c data n = pre' @ Inr r # post'
            \<and> (\<forall>r'\<in>set (pre' @ post'). \<not> isl r')
            \<and> distinct (map fst r) \<and> map_of r key = Some val
            \<and> (\<forall>r'. Inr r' \<in> set post' \<longrightarrow> key \<notin> fst ` set r')
            \<longrightarrow> (\<exists>out. transform c data n = Inr out \<and> map_of out key = Some val))
       \<and> (transform c data n = Inr out' \<and> map_of out' key' = Some val'
            \<longrightarrow> (\<exists>r'. Inr r' \<in> set (child_outcomes c data n) \<and> (key', val') \<in> set r'))
       \<and> (transform k data n = Inl e' \<longrightarrow> entry_outcome k v data n = Inl e')
       \<and> (transform k data n = Inr rk \<and> result_getitem rk k = Inr sub
            \<longrightarrow> entry_outcome k v data n = transform v sub n)
       \<and> (transform (SStr p) data n = Inr [(p, VNone)]
            \<longrightarrow> entry_outcome (SStr p) w data n = transform w VNone n)
       \<and> (is_composite w \<longrightarrow>
            transform w VNone n = Inl (TransformationTypeMismatch w VNone ''dict''))
       \<and> (str_contains ''.'' q \<longrightarrow>
            transform (SStr q) VNone n
              = Inl (TransformationTypeMismatch (SStr (hd (py_split ''.'' q))) VNone ''dict''))"
proof -
  note merge = transform_composite_merge[OF assms, of n]
  have c1: "transform c data n = Inl e"
    if "child_outcomes c data n = pre @ Inl e # post \<and> (\<forall>r\<in>set pre. \<not> isl r)"
    using that merge_first_error[of pre e post "[]"] by (simp add: merge)
  have c2: "\<exists>out. transform c data n = Inr out \<and> map_of out key = Some val"
    if h: "child_outcomes c data n = pre' @ Inr r # post'
            \<and> (\<forall>r'\<in>set (pre' @ post'). \<not> isl r')
            \<and> distinct (map fst r) \<and> map_of r key = Some val
            \<and> (\<forall>r'. Inr r' \<in> set post' \<longrightarrow> key \<notin> fst ` set r')"
  proof -
    from h have "map_of (rev r) key = Some val" by (simp add: map_of_rev_distinct)
    with h show ?thesis
      using merge_last_write[of pre' post' r key val "[]"] by (simp add: merge)
  qed
  have c3: "\<exists>r'. Inr r' \<in> set (child_outcomes c data n) \<and> (key', val') \<in> set r'"
    if h: "transform c data n = Inr out' \<and> map_of out' key' = Some val'"
  proof -
    from h have "(key', val') \<in> set out'" by (simp add: map_of_SomeD)
    with h show ?thesis
      using merge_entries[of "child_outcomes c data n" "[]" out' key' val'] by (simp add: merge)
  qed
  have c4: "entry_outcome k v data n = Inl e'" if "transform k data n = Inl e'"
    using that by (simp add: entry_outcome_def)
  have c5: "entry_outcome k v data n = transform v sub n"
    if "transform k data n = Inr rk \<and> result_getitem rk k = Inr sub"
    using that by (simp add: entry_outcome_def)
  have c6: "entry_outcome (SStr p) w data n = transform w VNone n"
    if "transform (SStr p) data n = Inr [(p, VNone)]"
    using that by (simp add: entry_outcome_def)
  from c1 c2 c3 c4 c5 c6 transform_composite_on_none[of w n] transform_dotted_on_none[of q n]
  show ?thesis by blast
qed

theorem composite_propagates_children_witness:
  "is_dict (VDict [(''a'', VInt 1)])
   \<and> is_composite (SList [SStr ''a'', SStr ''b''])
   \<and> child_outcomes (SList [SStr ''a'', SStr ''b'']) (VDict [(''a'', VInt 1)]) True
       = [Inr [(''a'', VInt 1)]] @ Inr [(''b'', VNone)] # []
   \<and> (\<exists>out. transform (SList [SStr ''a'', SStr ''b'']) (VDict [(''a'', VInt 1)]) True = Inr out
            \<and> map_of out ''b'' = Some VNone)
   \<and> child_outcomes (SList [SStr ''a'', SStr ''b'']) (VDict [(''a'', VInt 1)]) False
       = [Inr [(''a'', VInt 1)]]
           @ Inl (TransformationFieldMissing ''b'' (VDict [(''a'', VInt 1)])) # []
   \<and> transform (SList [SStr ''a'', SStr ''b'']) (VDict [(''a'', VInt 1)]) False
       = Inl (TransformationFieldMissing ''b'' (VDict [(''a'', VInt 1)]))
   \<and> transform (SStr ''k'') (VDict [(''a'', VInt 1)]) True = Inr [(''k'', VNone)]
   \<and> entry_outcome (SStr ''k'') (SList [SStr ''a'']) (VDict [(''a'', VInt 1)]) True
       = Inl (TransformationTypeMismatch (SList [SStr ''a'']) VNone ''dict'')"
proof -
  let ?D = "VDict [(''a'', VInt 1)]"
  let ?C = "SList [SStr ''a'', SStr ''b'']"
  have h1: "is_dict ?D" by (simp add: is_dict_def)
  have h2: "is_composite ?C" by (simp add: is_composite_def)
  have h3: "child_outcomes ?C ?D True = [Inr [(''a'', VInt 1)]] @ Inr [(''b'', VNone)] # []"
    by (simp add: transform_string_def)
  have h4: "child_outcomes ?C ?D False
       = [Inr [(''a'', VInt 1)]] @ Inl (TransformationFieldMissing ''b'' ?D) # []"
    by (simp add: transform_string_def)
  have h5: "transform (SStr ''k'') ?D True = Inr [(''k'', VNone)]"
    by (simp add: transform_string_def)
  have h6: "is_composite (SList [SStr ''a''])" by (simp add: is_composite_def)
  note merged = composite_propagates_children[OF h1 h2, where n=True
      and pre'="[Inr [(''a'', VInt 1)]]" and r="[(''b'', VNone)]" and post'="[]"
      and key="''b''" and val=VNone and p="''k''" and w="SList [SStr ''a'']"]
  note failed = composite_propagates_children[OF h1 h2, where n=False
      and pre="[Inr [(''a'', VInt 1)]]" and e="TransformationFieldMissing ''b'' ?D"
      and post="[]"]
  have w1: "\<exists>out. transform ?C ?D True = Inr out \<and> map_of out ''b'' = Some VNone"
    by (rule merged[THEN conjunct2, THEN conjunct1, THEN mp]) (simp add: transform_string_def)
  have w2: "transform ?C ?D False = Inl (TransformationFieldMissing ''b'' ?D)"
    by (rule failed[THEN conjunct1, THEN mp]) (simp add: transform_string_def)
  have w3: "entry_outcome (SStr ''k'') (SList [SStr ''a'']) ?D True
              = transform (SList [SStr ''a'']) VNone True"
    by (rule merged[THEN conjunct2, THEN conjunct2, THEN conjunct2, THEN conjunct2,
          THEN conjunct2, THEN conjunct1, THEN mp]) (rule h5)
  have w4: "transform (SList [SStr ''a'']) VNone True
              = Inl (TransformationTypeMismatch (SList [SStr ''a'']) VNone ''dict'')"
    by (rule merged[THEN conjunct2, THEN conjunct2, THEN conjunct2, THEN conjunct2,
          THEN conjunct2, THEN conjunct2, THEN conjunct1, THEN mp]) (rule h6)
  from w3 w4 have w5: "entry_outcome (SStr ''k'') (SList [SStr ''a'']) ?D True
              = Inl (TransformationTypeMismatch (SList [SStr ''a'']) VNone ''dict'')"
    by (rule trans)
  from h1 h2 h3 w1 h4 w2 h5 w5 show ?thesis by (intro conjI)
qed

section \<open>Keys of an ObjectSpec that are no path-strings\<close>

text \<open>
  C10, as stated, fails: with the extractor \<open>rename("a", "b")\<close> as keySpec and the input
  \<open>{}\<close> the call raises \<open>TransformationFieldMissing\<close>, raised by the extractor before any
  indexing; with the integer \<open>5\<close> as keySpec it raises \<open>TransformationMalformed\<close>. Both are
  errors of the module.
\<close>

theorem extractor_key_counterexample:
  "transform (SDict [(SFun (rename ''a'' ''b''), SStr ''c'')]) (VDict []) False
     = Inl (TransformationFieldMissing ''a'' (VDict []))
   \<and> transform (SDict [(SOther (AInt 5), SStr ''c'')]) (VDict [(''a'', VInt 1)]) False
     = Inl (TransformationMalformed (SOther (AInt 5)))"
  by (simp add: rename_def transform_string_def is_dict_def)

text \<open>
  C10, amended. Take an ObjectSpec entry whose keySpec is an extractor, reached on a
  mapping input after the earlier entries evaluated without error. When the extractor
  returns a result map, the call raises \<open>KeyError\<close>, from indexing that map (whose keys
  are strings) with the extractor object; when the extractor raises, its error is the
  error of the call. A keySpec that is neither a string nor callable raises
  \<open>TransformationMalformed\<close>.
\<close>

theorem extractor_key_raises_keyerror:
  assumes "is_dict data" and "transform (SDict kvs) data n = Inr acc"
  shows "(f data = Inr r \<longrightarrow>
            transform (SDict (kvs @ (SFun f, v) # rest)) data n = Inl (PyExc KeyError))
       \<and> (f data = Inl e \<longrightarrow> transform (SDict (kvs @ (SFun f, v) # rest)) data n = Inl e)
       \<and> transform (SDict (kvs @ (SOther a, v) # rest)) data n
           = Inl (TransformationMalformed (SOther a))"
  using assms by (simp add: dict_items_merge merge_append entry_outcome_def)

theorem extractor_key_raises_keyerror_witness:
  "is_dict (VDict [(''a'', VInt 1)])
   \<and> transform (SDict []) (VDict [(''a'', VInt 1)]) False = Inr []
   \<and> rename ''a'' ''b'' (VDict [(''a'', VInt 1)]) = Inr [(''b'', VInt 1)]
   \<and> transform (SDict ([] @ (SFun (rename ''a'' ''b''), SStr ''c'') # []))
         (VDict [(''a'', VInt 1)]) False = Inl (PyExc KeyError)"
proof -
  have h1: "is_dict (VDict [(''a'', VInt 1)])" by (simp add: is_dict_def)
  have h2: "transform (SDict []) (VDict [(''a'', VInt 1)]) False = Inr []"
    by (simp add: is_dict_def)
  have h3: "rename ''a'' ''b'' (VDict [(''a'', VInt 1)]) = Inr [(''b'', VInt 1)]"
    by (simp add: rename_def transform_string_def)
  from h1 h2 h3
    extractor_key_raises_keyerror[OF h1 h2, where f="rename ''a'' ''b''"
      and r="[(''b'', VInt 1)]" and v="SStr ''c''" and rest="[]"
      and e="PyExc KeyError" and a=ANone]
  show ?thesis by blast
qed

end
